theory Spec2Isabelle
  imports Complex_Main
begin

section \<open>Python values\<close>

text \<open>
  The module \<^verbatim>\<open>api.py\<close> handles decoded JSON: \<^verbatim>\<open>None\<close>, booleans, integers,
  floats, strings, lists and dictionaries with string keys.  Its normaliser adds
  \<^verbatim>\<open>datetime\<close> objects.  A string is a list of code points below 256; a dictionary is an
  association list in insertion order whose lookups take the first binding of a key.
\<close>

text \<open>
  A Python float is an IEEE binary64 value.  A finite one is kept as its sign and the
  rational number that is its magnitude; the flag is \<open>True\<close> for a negative value.
\<close>

datatype pyfloat = Finite bool rat | Infinity bool | NaN

record datetime =
  year :: nat
  month :: nat
  day :: nat
  hour :: nat
  minute :: nat
  second :: nat

datatype pyval =
    PNone
  | PBool bool
  | PInt int
  | PFloat pyfloat
  | PStr string
  | PList "pyval list"
  | PDict "(string \<times> pyval) list"
  | PDatetime datetime

text \<open>
  The exceptions that the module's own statements and the library calls it makes can raise.
  \<open>RequestException\<close> stands for the whole family derived from
  \<^verbatim>\<open>requests.exceptions.RequestException\<close>; \<open>Foreign\<close> is any exception outside that
  family and outside the built-in classes listed.
\<close>

datatype request_exception = ConnectionError | Timeout | HTTPError nat | OtherRequestError string

datatype exn =
    TypeError
  | AttributeError
  | ValueError
  | OverflowError
  | SystemError
  | RequestException request_exception
  | Foreign string

text \<open>
  Every \<^verbatim>\<open>print\<close> of the module is one constructor, carrying what it interpolates.
  The type \<open>'v\<close> is that of the Python values interpolated.
\<close>

datatype 'v log =
    StationsFetchFailed exn
  | SensorsFetchFailed int exn
  | MeasurementsFetchFailed int exn
  | InvalidMeasurementData
  | InvalidDateFormat 'v
  | InvalidNumericValue 'v

section \<open>Computations that print and may raise\<close>

text \<open>
  A statement yields the lines it printed and then either the exception that left it or
  its value.  Lines printed before an exception stay printed.
\<close>

type_synonym 'a run = "pyval log list \<times> (exn + 'a)"

definition ret :: "'a \<Rightarrow> 'a run" where
  "ret x = ([], Inr x)"

definition print :: "pyval log \<Rightarrow> unit run" where
  "print l = ([l], Inr ())"

definition lift :: "exn + 'a \<Rightarrow> 'a run" where
  "lift r = ([], r)"

definition bind :: "'a run \<Rightarrow> ('a \<Rightarrow> 'b run) \<Rightarrow> 'b run" where
  "bind m f =
     (case m of
        (l, Inl e) \<Rightarrow> (l, Inl e)
      | (l, Inr x) \<Rightarrow> (case f x of (l', r) \<Rightarrow> (l @ l', r)))"

text \<open>\<^verbatim>\<open>try: m except <classes>: h\<close>, the handler receiving the exception.\<close>

definition try_except :: "'a run \<Rightarrow> (exn \<Rightarrow> bool) \<Rightarrow> (exn \<Rightarrow> 'a run) \<Rightarrow> 'a run" where
  "try_except m caught h =
     (case m of
        (l, Inl e) \<Rightarrow>
          (if caught e then (case h e of (l', r) \<Rightarrow> (l @ l', r)) else (l, Inl e))
      | (l, Inr x) \<Rightarrow> (l, Inr x))"

section \<open>Built-in operations on values\<close>

text \<open>Truth value testing, as \<^verbatim>\<open>not x\<close> and \<^verbatim>\<open>if x:\<close> apply it.\<close>

fun truthy :: "pyval \<Rightarrow> bool" where
  "truthy PNone = False"
| "truthy (PBool b) = b"
| "truthy (PInt n) = (n \<noteq> 0)"
| "truthy (PFloat (Finite s q)) = (q \<noteq> 0)"
| "truthy (PFloat (Infinity s)) = True"
| "truthy (PFloat NaN) = True"
| "truthy (PStr s) = (s \<noteq> [])"
| "truthy (PList xs) = (xs \<noteq> [])"
| "truthy (PDict kvs) = (kvs \<noteq> [])"
| "truthy (PDatetime d) = True"

fun is_substring :: "string \<Rightarrow> string \<Rightarrow> bool" where
  "is_substring n [] = (n = [])"
| "is_substring n (c # cs) = (take (length n) (c # cs) = n \<or> is_substring n cs)"

text \<open>
  \<^verbatim>\<open>k in x\<close> for a string \<open>k\<close>: key membership in a dictionary, element membership in a
  list, substring test on a string, \<^verbatim>\<open>TypeError\<close> on a value that is no container.
\<close>

fun py_contains :: "pyval \<Rightarrow> string \<Rightarrow> exn + bool" where
  "py_contains (PDict kvs) k = Inr (k \<in> set (map fst kvs))"
| "py_contains (PList xs) k = Inr (PStr k \<in> set xs)"
| "py_contains (PStr s) k = Inr (is_substring k s)"
| "py_contains v k = Inl TypeError"

text \<open>\<^verbatim>\<open>x.get(k, default)\<close>: only dictionaries have the method.\<close>

fun py_get :: "pyval \<Rightarrow> string \<Rightarrow> pyval \<Rightarrow> exn + pyval" where
  "py_get (PDict kvs) k d = Inr (case map_of kvs k of None \<Rightarrow> d | Some v \<Rightarrow> v)"
| "py_get v k d = Inl AttributeError"

text \<open>
  The items a \<^verbatim>\<open>for\<close> loop draws from a value: the elements of a list, the keys of a
  dictionary, the one-character strings of a string, \<^verbatim>\<open>TypeError\<close> otherwise.
\<close>

fun py_iter :: "pyval \<Rightarrow> exn + pyval list" where
  "py_iter (PList xs) = Inr xs"
| "py_iter (PDict kvs) = Inr (map (\<lambda>kv. PStr (fst kv)) kvs)"
| "py_iter (PStr s) = Inr (map (\<lambda>c. PStr [c]) s)"
| "py_iter v = Inl TypeError"

section \<open>The library calls of the normaliser\<close>

subsection \<open>\<^verbatim>\<open>float(x)\<close>\<close>

text \<open>
  Rounding a positive rational to the nearest binary64 value, ties to even: 53 significant
  bits, and never a unit in the last place below \<open>2 ^ -1074\<close> (the subnormal range).
\<close>

definition pow2 :: "int \<Rightarrow> rat" where
  "pow2 k = (if 0 \<le> k then 2 ^ nat k else 1 / 2 ^ nat (- k))"

function bit_length :: "int \<Rightarrow> nat" where
  "bit_length n = (if n \<le> 0 then 0 else Suc (bit_length (n div 2)))"
  by pat_completeness auto
termination
  by (relation "measure nat") auto

definition floor_log2 :: "rat \<Rightarrow> int" where
  "floor_log2 q =
     (let (a, b) = quotient_of q;
          k = int (bit_length a) - int (bit_length b)
      in if pow2 k \<le> q then k else k - 1)"

definition round_half_even :: "rat \<Rightarrow> int" where
  "round_half_even r =
     (let f = \<lfloor>r\<rfloor>; d = r - of_int f
      in if d < 1 / 2 then f else if 1 / 2 < d then f + 1 else if even f then f else f + 1)"

definition nearest_double :: "rat \<Rightarrow> rat" where
  "nearest_double q =
     (let p = max (floor_log2 q - 52) (- 1074)
      in of_int (round_half_even (q / pow2 p)) * pow2 p)"

text \<open>A magnitude that rounds to \<open>2 ^ 1024\<close> or more is beyond the largest finite double.\<close>

definition overflows :: "rat \<Rightarrow> bool" where
  "overflows q = (q \<noteq> 0 \<and> 2 ^ 1024 \<le> nearest_double q)"

definition is_digit :: "char \<Rightarrow> bool" where
  "is_digit c = (c \<in> set ''0123456789'')"

definition digit_value :: "char \<Rightarrow> int" where
  "digit_value c = of_char c - 48"

definition digits_value :: "string \<Rightarrow> int" where
  "digits_value ds = foldl (\<lambda>n c. 10 * n + digit_value c) 0 ds"

text \<open>
  The text of a number may carry single underscores between digits; they are checked and
  removed first.  \<open>prev\<close> is the character before the one looked at.
\<close>

fun remove_underscores :: "char \<Rightarrow> string \<Rightarrow> string option" where
  "remove_underscores prev [] = (if prev = CHR ''_'' then None else Some [])"
| "remove_underscores prev (c # cs) =
     (if c = CHR ''_'' then
        (if is_digit prev then remove_underscores c cs else None)
      else if prev = CHR ''_'' \<and> \<not> is_digit c then None
      else map_option ((#) c) (remove_underscores c cs))"

text \<open>
  Before the text is read, the two non-ASCII white-space code points below 256 (next line,
  no-break space) become a blank; the blanks that are then stripped from both ends are the
  six ASCII white-space characters.
\<close>

definition to_ascii_space :: "char \<Rightarrow> char" where
  "to_ascii_space c = (if of_char c \<in> {133, 160 :: nat} then CHR '' '' else c)"

definition is_c_space :: "char \<Rightarrow> bool" where
  "is_c_space c = (of_char c \<in> {9, 10, 11, 12, 13, 32 :: nat})"

definition strip :: "string \<Rightarrow> string" where
  "strip s = rev (dropWhile is_c_space (rev (dropWhile is_c_space s)))"

definition lower :: "char \<Rightarrow> char" where
  "lower c = (if 65 \<le> (of_char c :: nat) \<and> (of_char c :: nat) \<le> 90
              then char_of (of_char c + (32 :: nat)) else c)"

text \<open>An optional sign, returned as the negative flag with the rest of the text.\<close>

fun take_sign :: "string \<Rightarrow> bool \<times> string" where
  "take_sign [] = (False, [])"
| "take_sign (c # cs) =
     (if c = CHR ''-'' then (True, cs) else if c = CHR ''+'' then (False, cs)
      else (False, c # cs))"

text \<open>
  The exponent part of a decimal text: empty, or \<^verbatim>\<open>e\<close>, an optional sign and at least
  one digit.
\<close>

definition parse_exponent :: "string \<Rightarrow> int option" where
  "parse_exponent s =
     (case s of
        [] \<Rightarrow> Some 0
      | c # cs \<Rightarrow>
          (if lower c = CHR ''e'' then
             (let (neg, ds) = take_sign cs
              in if ds \<noteq> [] \<and> list_all is_digit ds
                 then Some (if neg then - digits_value ds else digits_value ds)
                 else None)
           else None))"

text \<open>
  An unsigned decimal text: digits, an optional point with more digits, at least one digit
  in all, then the exponent part.  The result is the exact rational written.
\<close>

definition parse_decimal :: "string \<Rightarrow> rat option" where
  "parse_decimal s =
     (let ip = takeWhile is_digit s; r1 = dropWhile is_digit s;
          fp = (case r1 of [] \<Rightarrow> [] | c # cs \<Rightarrow> if c = CHR ''.'' then takeWhile is_digit cs else []);
          r2 = (case r1 of [] \<Rightarrow> [] | c # cs \<Rightarrow> if c = CHR ''.'' then dropWhile is_digit cs else r1)
      in if ip = [] \<and> fp = [] then None
         else (case parse_exponent r2 of
                 None \<Rightarrow> None
               | Some e \<Rightarrow>
                   (let k = e - int (length fp); m = of_int (digits_value (ip @ fp))
                    in Some (if 0 \<le> k then m * 10 ^ nat k else m / 10 ^ nat (- k)))))"

text \<open>
  \<^verbatim>\<open>float(s)\<close> for a string: a decimal text or, in any letter case, \<^verbatim>\<open>inf\<close>,
  \<^verbatim>\<open>infinity\<close> or \<^verbatim>\<open>nan\<close>, each with an optional sign.  A decimal text too large for
  a double gives an infinity, not an exception.
\<close>

definition float_of_string :: "string \<Rightarrow> exn + pyfloat" where
  "float_of_string s =
     (case remove_underscores (char_of (0 :: nat)) (map to_ascii_space s) of
        None \<Rightarrow> Inl ValueError
      | Some t \<Rightarrow>
          (let (neg, body) = take_sign (strip t); word = map lower body
           in if word = ''inf'' \<or> word = ''infinity'' then Inr (Infinity neg)
              else if word = ''nan'' then Inr NaN
              else (case parse_decimal body of
                      None \<Rightarrow> Inl ValueError
                    | Some q \<Rightarrow>
                        Inr (if q = 0 then Finite neg 0
                             else if overflows q then Infinity neg
                             else Finite neg (nearest_double q)))))"

text \<open>\<^verbatim>\<open>float(n)\<close> for an integer: \<^verbatim>\<open>OverflowError\<close> when it is too large for a double.\<close>

definition float_of_int :: "int \<Rightarrow> exn + pyfloat" where
  "float_of_int n =
     (if n = 0 then Inr (Finite False 0)
      else if overflows (of_int \<bar>n\<bar>) then Inl OverflowError
      else Inr (Finite (n < 0) (nearest_double (of_int \<bar>n\<bar>))))"

fun py_float :: "pyval \<Rightarrow> exn + pyfloat" where
  "py_float (PStr s) = float_of_string s"
| "py_float (PInt n) = float_of_int n"
| "py_float (PBool b) = Inr (Finite False (if b then 1 else 0))"
| "py_float (PFloat f) = Inr f"
| "py_float v = Inl TypeError"

subsection \<open>\<^verbatim>\<open>datetime.strptime(s, '%Y-%m-%d %H:%M:%S')\<close>\<close>

text \<open>
  The library turns the format into a regular expression and matches it at the start of
  the text, trying the alternatives of a group in the order written and backtracking.  An
  item is a literal character, a group of alternatives (each a sequence of character sets),
  or one or more characters of a set.
\<close>

datatype re_item = Lit char | Alt "string list list" | Plus string

fun match_seq :: "string list \<Rightarrow> string \<Rightarrow> (string \<times> string) option" where
  "match_seq [] s = Some ([], s)"
| "match_seq (cs # css) [] = None"
| "match_seq (cs # css) (x # xs) =
     (if x \<in> set cs then map_option (\<lambda>(m, r). (x # m, r)) (match_seq css xs) else None)"

fun first_some :: "('a \<Rightarrow> 'b option) \<Rightarrow> 'a list \<Rightarrow> 'b option" where
  "first_some f [] = None"
| "first_some f (x # xs) = (case f x of Some y \<Rightarrow> Some y | None \<Rightarrow> first_some f xs)"

text \<open>The texts captured by the groups, in order, and the unmatched rest of the input.\<close>

fun re_match :: "re_item list \<Rightarrow> string \<Rightarrow> (string list \<times> string) option" where
  "re_match [] s = Some ([], s)"
| "re_match (Lit c # p) s =
     (case s of [] \<Rightarrow> None | x # xs \<Rightarrow> if x = c then re_match p xs else None)"
| "re_match (Alt alts # p) s =
     first_some
       (\<lambda>alt. case match_seq alt s of
                 None \<Rightarrow> None
               | Some (m, r) \<Rightarrow> map_option (\<lambda>(caps, rest). (m # caps, rest)) (re_match p r))
       alts"
| "re_match (Plus cs # p) s =
     first_some (\<lambda>k. re_match p (drop k s))
       (rev [1 ..< Suc (length (takeWhile (\<lambda>x. x \<in> set cs) s))])"

definition rx_digit :: string where
  "rx_digit = ''0123456789''"

text \<open>The white space of the regular expression engine, among the code points below 256.\<close>

definition rx_space :: string where
  "rx_space = map char_of [9, 10, 11, 12, 13, 28, 29, 30, 31, 32, 133, 160 :: nat]"

definition datetime_format_regex :: "re_item list" where
  "datetime_format_regex =
     [Alt [[rx_digit, rx_digit, rx_digit, rx_digit]], Lit (CHR ''-''),
      Alt [[''1'', ''012''], [''0'', ''123456789''], [''123456789'']], Lit (CHR ''-''),
      Alt [[''3'', ''01''], [''12'', rx_digit], [''0'', ''123456789''], [''123456789''],
           ['' '', ''123456789'']],
      Plus rx_space,
      Alt [[''2'', ''0123''], [''01'', rx_digit], [rx_digit]], Lit (CHR '':''),
      Alt [[''012345'', rx_digit], [rx_digit]], Lit (CHR '':''),
      Alt [[''6'', ''01''], [''012345'', rx_digit], [rx_digit]]]"

definition is_leap :: "nat \<Rightarrow> bool" where
  "is_leap y = (y mod 4 = 0 \<and> (y mod 100 \<noteq> 0 \<or> y mod 400 = 0))"

definition days_in_month :: "nat \<Rightarrow> nat \<Rightarrow> nat" where
  "days_in_month y m =
     (if m = 2 then (if is_leap y then 29 else 28)
      else if m \<in> {4, 6, 9, 11} then 30 else 31)"

text \<open>The \<^verbatim>\<open>datetime\<close> constructor checks the ranges of its arguments.\<close>

definition datetime_new :: "nat \<Rightarrow> nat \<Rightarrow> nat \<Rightarrow> nat \<Rightarrow> nat \<Rightarrow> nat \<Rightarrow> exn + datetime" where
  "datetime_new y mo d h mi s =
     (if 1 \<le> y \<and> y \<le> 9999 \<and> 1 \<le> mo \<and> mo \<le> 12 \<and> 1 \<le> d \<and> d \<le> days_in_month y mo
         \<and> h \<le> 23 \<and> mi \<le> 59 \<and> s \<le> 59
      then Inr \<lparr>year = y, month = mo, day = d, hour = h, minute = mi, second = s\<rparr>
      else Inl ValueError)"

text \<open>\<^verbatim>\<open>int\<close> of a captured group: the day may start with a blank.\<close>

definition group_value :: "string \<Rightarrow> nat" where
  "group_value g = nat (digits_value (dropWhile (\<lambda>c. c = CHR '' '') g))"

definition strptime_string :: "string \<Rightarrow> exn + datetime" where
  "strptime_string s =
     (case re_match datetime_format_regex s of
        None \<Rightarrow> Inl ValueError
      | Some (caps, rest) \<Rightarrow>
          (if rest \<noteq> [] then Inl ValueError
           else (case caps of
                   [Y, m, d, H, M, S] \<Rightarrow>
                     datetime_new (group_value Y) (group_value m) (group_value d)
                       (group_value H) (group_value M) (group_value S)
                 | _ \<Rightarrow> Inl ValueError)))"

text \<open>The first argument must be a string: anything else is a \<^verbatim>\<open>TypeError\<close>.\<close>

fun strptime :: "pyval \<Rightarrow> exn + datetime" where
  "strptime (PStr s) = strptime_string s"
| "strptime v = Inl TypeError"

section \<open>The three fetch operations\<close>

text \<open>
  The network is a parameter: what \<^verbatim>\<open>requests.get(url, timeout=10)\<close> does for a URL,
  either raising or returning a response.  A response has a status code and the outcome of
  its \<^verbatim>\<open>json()\<close> method.
\<close>

record response =
  status_code :: nat
  json :: "exn + pyval"

type_synonym network = "string \<Rightarrow> exn + response"

definition raise_for_status :: "response \<Rightarrow> exn + unit" where
  "raise_for_status r =
     (if 400 \<le> status_code r \<and> status_code r < 600
      then Inl (RequestException (HTTPError (status_code r))) else Inr ())"

fun is_request_exception :: "exn \<Rightarrow> bool" where
  "is_request_exception (RequestException e) = True"
| "is_request_exception e = False"

definition GIOS_API_BASE_URL :: string where
  "GIOS_API_BASE_URL = ''https://api.gios.gov.pl/pjp-api/rest''"

text \<open>The decimal text an f-string writes for an integer.\<close>

fun decimal :: "nat \<Rightarrow> string" where
  "decimal n =
     (if n < 10 then [char_of (48 + n)] else decimal (n div 10) @ [char_of (48 + n mod 10)])"

definition str_int :: "int \<Rightarrow> string" where
  "str_int i = (if i < 0 then CHR ''-'' # decimal (nat (- i)) else decimal (nat i))"

text \<open>The body shared by the three \<^verbatim>\<open>try\<close> blocks: get, check the status, decode.\<close>

definition get_json :: "network \<Rightarrow> string \<Rightarrow> pyval run" where
  "get_json net url =
     bind (lift (net url)) (\<lambda>response.
     bind (lift (raise_for_status response)) (\<lambda>_.
     lift (json response)))"

definition fetch_stations :: "network \<Rightarrow> pyval run" where
  "fetch_stations net =
     try_except (get_json net (GIOS_API_BASE_URL @ ''/station/findAll''))
       is_request_exception
       (\<lambda>e. bind (print (StationsFetchFailed e)) (\<lambda>_. ret PNone))"

definition fetch_sensors_for_station :: "network \<Rightarrow> int \<Rightarrow> pyval run" where
  "fetch_sensors_for_station net station_id =
     try_except (get_json net (GIOS_API_BASE_URL @ ''/station/sensors/'' @ str_int station_id))
       is_request_exception
       (\<lambda>e. bind (print (SensorsFetchFailed station_id e)) (\<lambda>_. ret PNone))"

definition fetch_measurements_for_sensor :: "network \<Rightarrow> int \<Rightarrow> pyval run" where
  "fetch_measurements_for_sensor net sensor_id =
     try_except (get_json net (GIOS_API_BASE_URL @ ''/data/getData/'' @ str_int sensor_id))
       is_request_exception
       (\<lambda>e. bind (print (MeasurementsFetchFailed sensor_id e)) (\<lambda>_. ret PNone))"

section \<open>The normaliser\<close>

text \<open>
  The body of the loop of \<^verbatim>\<open>process_measurement_data\<close>: one raw entry to one
  normalised entry.
\<close>

definition process_item :: "pyval \<Rightarrow> pyval run" where
  "process_item item =
     bind (lift (py_get item ''date'' PNone)) (\<lambda>date_str.
     bind (lift (py_get item ''value'' PNone)) (\<lambda>value_str.
     bind (if truthy date_str
           then try_except (bind (lift (strptime date_str)) (\<lambda>d. ret (PDatetime d)))
                  (\<lambda>e. e = ValueError)
                  (\<lambda>e. bind (print (InvalidDateFormat date_str)) (\<lambda>_. ret PNone))
           else ret PNone) (\<lambda>parsed_date.
     bind (if value_str \<noteq> PNone
           then try_except (bind (lift (py_float value_str)) (\<lambda>f. ret (PFloat f)))
                  (\<lambda>e. e = ValueError \<or> e = TypeError)
                  (\<lambda>e. bind (print (InvalidNumericValue value_str)) (\<lambda>_. ret PNone))
           else ret PNone) (\<lambda>parsed_value.
     ret (PDict [(''date'', parsed_date), (''value'', parsed_value)])))))"

text \<open>The loop, appending each normalised entry to \<open>processed_values\<close>.\<close>

fun for_items :: "pyval list \<Rightarrow> pyval list \<Rightarrow> pyval list run" where
  "for_items [] processed_values = ret processed_values"
| "for_items (item # items) processed_values =
     bind (process_item item) (\<lambda>entry. for_items items (processed_values @ [entry]))"

definition process_measurement_data :: "pyval \<Rightarrow> pyval run" where
  "process_measurement_data raw_measurements_data =
     bind (if \<not> truthy raw_measurements_data then ret True
           else bind (lift (py_contains raw_measurements_data ''values''))
                  (\<lambda>present. ret (\<not> present))) (\<lambda>invalid.
     if invalid then bind (print InvalidMeasurementData) (\<lambda>_. ret PNone)
     else
       bind (lift (py_get raw_measurements_data ''key'' PNone)) (\<lambda>key.
       bind (lift (py_get raw_measurements_data ''values'' (PList []))) (\<lambda>vals.
       bind (lift (py_iter vals)) (\<lambda>items.
       bind (for_items items []) (\<lambda>processed_values.
       ret (PDict [(''key'', key), (''values'', PList processed_values)]))))))"

section \<open>Well-formed input\<close>





text \<open>
  The request to \<open>url\<close> fails with \<open>r\<close>: the transport raises it (a refused connection, a
  timeout), or the response arrives with a 4xx or 5xx status and the status check raises it.
\<close>

definition request_fails :: "network \<Rightarrow> string \<Rightarrow> request_exception \<Rightarrow> bool" where
  "request_fails net url r =
     (case net url of
        Inl e \<Rightarrow> e = RequestException r
      | Inr resp \<Rightarrow> 400 \<le> status_code resp \<and> status_code resp < 600
                    \<and> r = HTTPError (status_code resp))"

section \<open>The normaliser on a store\<close>

text \<open>
  Python lists and dictionaries are objects with identity, reached through references and
  changed in place.  The store is the list of the objects allocated so far, an address
  being an index into it; \<^verbatim>\<open>None\<close>, booleans, numbers, strings and
  \<^verbatim>\<open>datetime\<close> objects are immutable and stand for themselves.
\<close>

datatype ref =
    RNone
  | RBool bool
  | RInt int
  | RFloat pyfloat
  | RStr string
  | RDatetime datetime
  | RObj nat

datatype obj = ODict "(string \<times> ref) list" | OList "ref list"

type_synonym heap = "obj list"

text \<open>
  A statement on the store yields the lines printed, the exception or the value, and the
  store it leaves.
\<close>

type_synonym 'a prog = "heap \<Rightarrow> (ref log list \<times> (exn + 'a)) \<times> heap"

definition hret :: "'a \<Rightarrow> 'a prog" where
  "hret x = (\<lambda>h. (([], Inr x), h))"

definition hprint :: "ref log \<Rightarrow> unit prog" where
  "hprint l = (\<lambda>h. (([l], Inr ()), h))"

text \<open>An operation that reads the store and may raise.\<close>

definition hread :: "(heap \<Rightarrow> exn + 'a) \<Rightarrow> 'a prog" where
  "hread f = (\<lambda>h. (([], f h), h))"

definition hbind :: "'a prog \<Rightarrow> ('a \<Rightarrow> 'b prog) \<Rightarrow> 'b prog" where
  "hbind m f =
     (\<lambda>h. case m h of
        ((l, Inl e), h') \<Rightarrow> ((l, Inl e), h')
      | ((l, Inr x), h') \<Rightarrow> (case f x h' of ((l', r), h'') \<Rightarrow> ((l @ l', r), h'')))"

definition htry :: "'a prog \<Rightarrow> (exn \<Rightarrow> bool) \<Rightarrow> (exn \<Rightarrow> 'a prog) \<Rightarrow> 'a prog" where
  "htry m caught handler =
     (\<lambda>h. case m h of
        ((l, Inl e), h') \<Rightarrow>
          (if caught e then (case handler e h' of ((l', r), h'') \<Rightarrow> ((l @ l', r), h''))
           else ((l, Inl e), h'))
      | ((l, Inr x), h') \<Rightarrow> ((l, Inr x), h'))"

text \<open>A new object gets the next address.\<close>

definition alloc :: "obj \<Rightarrow> ref prog" where
  "alloc ob = (\<lambda>h. (([], Inr (RObj (length h))), h @ [ob]))"

text \<open>
  Reading the object behind a reference.  A reference beyond the store cannot arise in
  Python; the model answers it with \<^verbatim>\<open>SystemError\<close>.
\<close>

definition obj_at :: "heap \<Rightarrow> nat \<Rightarrow> exn + obj" where
  "obj_at h a = (if a < length h then Inr (h ! a) else Inl SystemError)"

text \<open>\<^verbatim>\<open>xs.append(r)\<close>: only lists have the method.\<close>

definition list_append :: "ref \<Rightarrow> ref \<Rightarrow> unit prog" where
  "list_append xs r =
     (\<lambda>h. case xs of
        RObj a \<Rightarrow>
          (case obj_at h a of
             Inl e \<Rightarrow> (([], Inl e), h)
           | Inr (OList rs) \<Rightarrow> (([], Inr ()), h[a := OList (rs @ [r])])
           | Inr (ODict kvs) \<Rightarrow> (([], Inl AttributeError), h))
      | _ \<Rightarrow> (([], Inl AttributeError), h))"

text \<open>Storing under a key keeps the position of a key already there, and else adds at the end.\<close>

fun alist_set :: "string \<Rightarrow> ref \<Rightarrow> (string \<times> ref) list \<Rightarrow> (string \<times> ref) list" where
  "alist_set k r [] = [(k, r)]"
| "alist_set k r (kv # kvs) = (if fst kv = k then (k, r) # kvs else kv # alist_set k r kvs)"

text \<open>\<^verbatim>\<open>d[k] = r\<close>: item assignment on a dictionary; on a list the key would have to be an index.\<close>

definition dict_set :: "ref \<Rightarrow> string \<Rightarrow> ref \<Rightarrow> unit prog" where
  "dict_set d k r =
     (\<lambda>h. case d of
        RObj a \<Rightarrow>
          (case obj_at h a of
             Inl e \<Rightarrow> (([], Inl e), h)
           | Inr (ODict kvs) \<Rightarrow> (([], Inr ()), h[a := ODict (alist_set k r kvs)])
           | Inr (OList rs) \<Rightarrow> (([], Inl TypeError), h))
      | _ \<Rightarrow> (([], Inl TypeError), h))"

text \<open>The built-in operations of the pure model, reading containers from the store.\<close>

definition truthy_h :: "heap \<Rightarrow> ref \<Rightarrow> exn + bool" where
  "truthy_h h r =
     (case r of
        RNone \<Rightarrow> Inr False
      | RBool b \<Rightarrow> Inr b
      | RInt n \<Rightarrow> Inr (n \<noteq> 0)
      | RFloat f \<Rightarrow> Inr (truthy (PFloat f))
      | RStr s \<Rightarrow> Inr (s \<noteq> [])
      | RDatetime d \<Rightarrow> Inr True
      | RObj a \<Rightarrow>
          (case obj_at h a of
             Inl e \<Rightarrow> Inl e
           | Inr (OList rs) \<Rightarrow> Inr (rs \<noteq> [])
           | Inr (ODict kvs) \<Rightarrow> Inr (kvs \<noteq> [])))"

definition contains_h :: "heap \<Rightarrow> ref \<Rightarrow> string \<Rightarrow> exn + bool" where
  "contains_h h r k =
     (case r of
        RStr s \<Rightarrow> Inr (is_substring k s)
      | RObj a \<Rightarrow>
          (case obj_at h a of
             Inl e \<Rightarrow> Inl e
           | Inr (OList rs) \<Rightarrow> Inr (RStr k \<in> set rs)
           | Inr (ODict kvs) \<Rightarrow> Inr (k \<in> set (map fst kvs)))
      | _ \<Rightarrow> Inl TypeError)"

definition get_h :: "heap \<Rightarrow> ref \<Rightarrow> string \<Rightarrow> ref \<Rightarrow> exn + ref" where
  "get_h h r k d =
     (case r of
        RObj a \<Rightarrow>
          (case obj_at h a of
             Inl e \<Rightarrow> Inl e
           | Inr (ODict kvs) \<Rightarrow> Inr (case map_of kvs k of None \<Rightarrow> d | Some v \<Rightarrow> v)
           | Inr (OList rs) \<Rightarrow> Inl AttributeError)
      | _ \<Rightarrow> Inl AttributeError)"

definition iter_h :: "heap \<Rightarrow> ref \<Rightarrow> exn + ref list" where
  "iter_h h r =
     (case r of
        RStr s \<Rightarrow> Inr (map (\<lambda>c. RStr [c]) s)
      | RObj a \<Rightarrow>
          (case obj_at h a of
             Inl e \<Rightarrow> Inl e
           | Inr (OList rs) \<Rightarrow> Inr rs
           | Inr (ODict kvs) \<Rightarrow> Inr (map (\<lambda>kv. RStr (fst kv)) kvs))
      | _ \<Rightarrow> Inl TypeError)"

text \<open>The two library calls look at immutable values only; a container is a \<^verbatim>\<open>TypeError\<close>.\<close>

fun strptime_h :: "ref \<Rightarrow> exn + datetime" where
  "strptime_h (RStr s) = strptime_string s"
| "strptime_h r = Inl TypeError"

fun float_h :: "ref \<Rightarrow> exn + pyfloat" where
  "float_h (RStr s) = float_of_string s"
| "float_h (RInt n) = float_of_int n"
| "float_h (RBool b) = Inr (Finite False (if b then 1 else 0))"
| "float_h (RFloat f) = Inr f"
| "float_h r = Inl TypeError"

text \<open>The loop body: it builds the entry as a new dictionary.\<close>

definition process_item_h :: "ref \<Rightarrow> ref prog" where
  "process_item_h item =
     hbind (hread (\<lambda>h. get_h h item ''date'' RNone)) (\<lambda>date_str.
     hbind (hread (\<lambda>h. get_h h item ''value'' RNone)) (\<lambda>value_str.
     hbind (hbind (hread (\<lambda>h. truthy_h h date_str)) (\<lambda>present.
            if present
            then htry (hbind (hread (\<lambda>h. strptime_h date_str)) (\<lambda>d. hret (RDatetime d)))
                   (\<lambda>e. e = ValueError)
                   (\<lambda>e. hbind (hprint (InvalidDateFormat date_str)) (\<lambda>_. hret RNone))
            else hret RNone)) (\<lambda>parsed_date.
     hbind (if value_str \<noteq> RNone
            then htry (hbind (hread (\<lambda>h. float_h value_str)) (\<lambda>f. hret (RFloat f)))
                   (\<lambda>e. e = ValueError \<or> e = TypeError)
                   (\<lambda>e. hbind (hprint (InvalidNumericValue value_str)) (\<lambda>_. hret RNone))
            else hret RNone) (\<lambda>parsed_value.
     alloc (ODict [(''date'', parsed_date), (''value'', parsed_value)])))))"

text \<open>
  The loop over the items drawn when it starts.  Its body changes no list but
  \<open>processed_values\<close>, which is new, so the list iterated over keeps these items.
\<close>

fun for_items_h :: "ref list \<Rightarrow> ref \<Rightarrow> unit prog" where
  "for_items_h [] processed_values = hret ()"
| "for_items_h (item # items) processed_values =
     hbind (process_item_h item) (\<lambda>entry.
     hbind (list_append processed_values entry) (\<lambda>_.
     for_items_h items processed_values))"

text \<open>
  The function, statement by statement: the gate, the new dictionary with the key, the new
  list, the loop, the assignment of the list to the dictionary.  The default \<^verbatim>\<open>[]\<close>
  of the second \<^verbatim>\<open>get\<close> is an argument, so it is built before the call.
\<close>

definition process_measurement_data_h :: "ref \<Rightarrow> ref prog" where
  "process_measurement_data_h raw_measurements_data =
     hbind (hbind (hread (\<lambda>h. truthy_h h raw_measurements_data)) (\<lambda>present.
            if \<not> present then hret True
            else hbind (hread (\<lambda>h. contains_h h raw_measurements_data ''values''))
                   (\<lambda>has_values. hret (\<not> has_values)))) (\<lambda>invalid.
     if invalid then hbind (hprint InvalidMeasurementData) (\<lambda>_. hret RNone)
     else
       hbind (hread (\<lambda>h. get_h h raw_measurements_data ''key'' RNone)) (\<lambda>key.
       hbind (alloc (ODict [(''key'', key)])) (\<lambda>processed_data.
       hbind (alloc (OList [])) (\<lambda>processed_values.
       hbind (alloc (OList [])) (\<lambda>default.
       hbind (hread (\<lambda>h. get_h h raw_measurements_data ''values'' default)) (\<lambda>vals.
       hbind (hread (\<lambda>h. iter_h h vals)) (\<lambda>items.
       hbind (for_items_h items processed_values) (\<lambda>_.
       hbind (dict_set processed_data ''values'' processed_values) (\<lambda>_.
       hret processed_data)))))))))"

text \<open>
  The value a reference stands for in a store, reading containers at addresses of \<open>A\<close>
  only.  A cyclic or dangling structure stands for no value.
\<close>

inductive denotes :: "nat set \<Rightarrow> heap \<Rightarrow> ref \<Rightarrow> pyval \<Rightarrow> bool"
  for A :: "nat set" and h :: heap
where
  d_none: "denotes A h RNone PNone"
| d_bool: "denotes A h (RBool b) (PBool b)"
| d_int: "denotes A h (RInt n) (PInt n)"
| d_float: "denotes A h (RFloat f) (PFloat f)"
| d_str: "denotes A h (RStr s) (PStr s)"
| d_datetime: "denotes A h (RDatetime d) (PDatetime d)"
| d_list: "a \<in> A \<Longrightarrow> a < length h \<Longrightarrow> h ! a = OList rs \<Longrightarrow> list_all2 (denotes A h) rs vs
           \<Longrightarrow> denotes A h (RObj a) (PList vs)"
| d_dict: "a \<in> A \<Longrightarrow> a < length h \<Longrightarrow> h ! a = ODict kvs \<Longrightarrow> map fst kvs = map fst kvs'
           \<Longrightarrow> list_all2 (denotes A h) (map snd kvs) (map snd kvs')
           \<Longrightarrow> denotes A h (RObj a) (PDict kvs')"
  monos list_all2_mono

text \<open>
  The store \<open>h'\<close> holds every object of \<open>h\<close> at its address, unchanged, and maybe new
  ones after them.
\<close>

definition grows :: "heap \<Rightarrow> heap \<Rightarrow> bool" where
  "grows h h' = (take (length h) h' = h)"

section \<open>Properties of the library calls\<close>






section \<open>One entry, then the loop\<close>





section \<open>The store: frame, denotation, refinement\<close>

lemma hread_run:
  "hread f h = (case f h of Inl e \<Rightarrow> (([], Inl e), h) | Inr x \<Rightarrow> (([], Inr x), h))"
  by (simp add: hread_def split: sum.splits)

lemma get_h_Inl_sym: "(Inl e = get_h h r k d) = (get_h h r k d = Inl e)"
  by auto

lemmas prog_defs = hbind_def htry_def hread_run hret_def hprint_def alloc_def get_h_Inl_sym

lemma grows_iff: "grows h h' \<longleftrightarrow> (\<exists>xs. h' = h @ xs)"
proof
  assume "grows h h'"
  then have "h' = h @ drop (length h) h'"
    unfolding grows_def by (metis append_take_drop_id)
  then show "\<exists>xs. h' = h @ xs" ..
next
  assume "\<exists>xs. h' = h @ xs"
  then show "grows h h'" by (auto simp: grows_def)
qed

lemma grows_refl [simp]: "grows h h"
  by (simp add: grows_def)

lemma grows_append [simp]: "grows h (h @ xs)"
  by (simp add: grows_def)

lemma grows_length: "grows h h' \<Longrightarrow> length h \<le> length h'"
  by (auto simp: grows_iff)

lemma grows_nth: "grows h h' \<Longrightarrow> a < length h \<Longrightarrow> h' ! a = h ! a"
  by (auto simp: grows_iff nth_append)

lemma grows_trans: "grows h h' \<Longrightarrow> grows h' h'' \<Longrightarrow> grows h h''"
  by (auto simp: grows_iff)

lemma grows_update: "grows h h' \<Longrightarrow> length h \<le> a \<Longrightarrow> grows h (h'[a := ob])"
  by (auto simp: grows_iff list_update_append)


lemma process_item_h_store:
  assumes "process_item_h item h = ((lines, res), h')"
  shows "(h' = h \<and> isl res)
       \<or> (\<exists>d v. h' = h @ [ODict [(''date'', d), (''value'', v)]] \<and> res = Inr (RObj (length h)))"
  using assms
  unfolding process_item_h_def
  by (auto simp: prog_defs split: sum.splits if_splits prod.splits)

text \<open>The loop writes to the list \<open>processed_values\<close> and to new addresses only.\<close>

lemma for_items_h_store:
  assumes "for_items_h items (RObj pv) h = ((lines, res), h')"
      and "pv < length h" and "h ! pv = OList acc"
  shows "length h \<le> length h'
       \<and> (\<forall>a < length h. a \<noteq> pv \<longrightarrow> h' ! a = h ! a)
       \<and> (\<exists>new. h' ! pv = OList (acc @ new) \<and> (\<forall>r \<in> set new. \<exists>b. r = RObj b \<and> length h \<le> b \<and> b < length h')
             \<and> (res = Inr () \<longrightarrow> length new = length items))"
  using assms
proof (induction items arbitrary: h lines acc)
  case Nil
  then show ?case by (auto simp: hret_def)
next
  case (Cons item items)
  obtain l1 r1 h1 where s1: "process_item_h item h = ((l1, r1), h1)"
    by (metis prod.exhaust)
  from process_item_h_store[OF s1] show ?case
  proof (elim disjE conjE exE)
    assume "h1 = h" "isl r1"
    then show ?thesis
      using Cons.prems s1 by (auto simp: hbind_def isl_def)
  next
    fix d v
    assume h1: "h1 = h @ [ODict [(''date'', d), (''value'', v)]]" and r1: "r1 = Inr (RObj (length h))"
    let ?h2 = "h1[pv := OList (acc @ [RObj (length h)])]"
    have ap: "list_append (RObj pv) (RObj (length h)) h1 = (([], Inr ()), ?h2)"
      using Cons.prems(2,3) by (simp add: list_append_def obj_at_def h1 nth_append)
    obtain l3 where s3: "for_items_h items (RObj pv) ?h2 = ((l3, res), h')"
      using Cons.prems(1) s1 r1 ap by (auto simp: hbind_def split: prod.splits sum.splits)
    have pv2: "pv < length ?h2" "?h2 ! pv = OList (acc @ [RObj (length h)])"
      using Cons.prems(2) by (simp_all add: h1)
    from Cons.IH[OF s3 pv2] obtain new where
      len: "length ?h2 \<le> length h'"
      and same: "\<forall>a < length ?h2. a \<noteq> pv \<longrightarrow> h' ! a = ?h2 ! a"
      and new: "h' ! pv = OList ((acc @ [RObj (length h)]) @ new)"
           "\<forall>r \<in> set new. \<exists>b. r = RObj b \<and> length ?h2 \<le> b \<and> b < length h'"
           "res = Inr () \<longrightarrow> length new = length items"
      by blast
    have "length h \<le> length h'" using len by (simp add: h1)
    moreover have "\<forall>a < length h. a \<noteq> pv \<longrightarrow> h' ! a = h ! a"
      using same by (simp add: h1 nth_append)
    moreover have "h' ! pv = OList (acc @ (RObj (length h) # new))"
      using new(1) by simp
    moreover have "\<forall>r \<in> set (RObj (length h) # new). \<exists>b. r = RObj b \<and> length h \<le> b \<and> b < length h'"
      using new(2) len by (auto simp: h1)
    moreover have "res = Inr () \<longrightarrow> length (RObj (length h) # new) = length (item # items)"
      using new(3) by simp
    ultimately show ?thesis by blast
  qed
qed


lemma grows_nth_iff:
  "grows h h' \<longleftrightarrow> length h \<le> length h' \<and> (\<forall>a < length h. h' ! a = h ! a)"
proof
  assume "grows h h'"
  then show "length h \<le> length h' \<and> (\<forall>a < length h. h' ! a = h ! a)"
    by (simp add: grows_length grows_nth)
next
  assume a: "length h \<le> length h' \<and> (\<forall>a < length h. h' ! a = h ! a)"
  then have "take (length h) h' = h"
    by (intro nth_equalityI) simp_all
  then show "grows h h'" by (simp add: grows_def)
qed

text \<open>The loop started by the function: on the store with the three new objects.\<close>

lemma for_items_h_fresh:
  assumes "for_items_h items (RObj (Suc (length h))) (h @ [ob, OList [], ob']) = ((lines, res), h')"
  shows "length h + 3 \<le> length h'
       \<and> (\<forall>a < length h. h' ! a = h ! a)
       \<and> h' ! length h = ob
       \<and> (\<exists>new. h' ! Suc (length h) = OList new
             \<and> (\<forall>r \<in> set new. \<exists>b. r = RObj b \<and> length h + 3 \<le> b \<and> b < length h')
             \<and> (res = Inr () \<longrightarrow> length new = length items))"
proof -
  let ?h3 = "h @ [ob, OList [], ob']"
  have pv: "Suc (length h) < length ?h3" "?h3 ! Suc (length h) = OList []"
    by (simp_all add: nth_append)
  from for_items_h_store[OF assms pv] obtain new where
    len: "length ?h3 \<le> length h'"
    and same: "\<forall>a < length ?h3. a \<noteq> Suc (length h) \<longrightarrow> h' ! a = ?h3 ! a"
    and new: "h' ! Suc (length h) = OList ([] @ new)"
         "\<forall>r \<in> set new. \<exists>b. r = RObj b \<and> length ?h3 \<le> b \<and> b < length h'"
         "res = Inr () \<longrightarrow> length new = length items"
    by blast
  have "\<forall>a < length h. h' ! a = h ! a"
    using same by (auto simp: nth_append)
  moreover have "h' ! length h = ob"
    using same by (auto simp: nth_append)
  ultimately show ?thesis
    using len new by auto
qed

lemma process_measurement_data_h_store:
  assumes run: "process_measurement_data_h raw h = ((lines, res), h')"
  shows "grows h h'
       \<and> (\<forall>r. res = Inr r \<longrightarrow>
            (r = RNone \<and> h' = h)
          \<or> (r = RObj (length h) \<and> length h + 3 \<le> length h'
              \<and> (\<exists>k entries.
                    h' ! length h = ODict [(''key'', k), (''values'', RObj (Suc (length h)))]
                  \<and> h' ! Suc (length h) = OList entries
                  \<and> (\<forall>x \<in> set entries. \<exists>b. x = RObj b \<and> length h + 3 \<le> b \<and> b < length h'))))"
proof -
  let ?pd = "length h"
  let ?pv = "Suc (length h)"
  consider
    (early) "h' = h" "isl res \<or> res = Inr RNone"
  | (allocated) k where "h' = h @ [ODict [(''key'', k)], OList [], OList []]" "isl res"
  | (raised) k items l r where
      "for_items_h items (RObj ?pv) (h @ [ODict [(''key'', k)], OList [], OList []]) = ((l, r), h')"
      "isl res"
  | (finished) k items l h4 l5 r5 where
      "for_items_h items (RObj ?pv) (h @ [ODict [(''key'', k)], OList [], OList []])
         = ((l, Inr ()), h4)"
      "dict_set (RObj ?pd) ''values'' (RObj ?pv) h4 = ((l5, r5), h')"
      "isl r5 \<and> isl res \<or> r5 = Inr () \<and> res = Inr (RObj ?pd)"
    using run unfolding process_measurement_data_h_def
    by (auto simp: prog_defs split: sum.splits if_splits prod.splits)
  then show ?thesis
  proof cases
    case early
    then show ?thesis by (auto simp: isl_def)
  next
    case allocated
    then show ?thesis by (auto simp: isl_def)
  next
    case raised
    from for_items_h_fresh[OF raised(1)] have "grows h h'"
      by (simp add: grows_nth_iff)
    then show ?thesis using raised(2) by (auto simp: isl_def)
  next
    case finished
    from for_items_h_fresh[OF finished(1)] obtain new where
      len: "length h + 3 \<le> length h4"
      and same: "\<forall>a < length h. h4 ! a = h ! a"
      and pd: "h4 ! length h = ODict [(''key'', k)]"
      and new: "h4 ! Suc (length h) = OList new"
           "\<forall>r \<in> set new. \<exists>b. r = RObj b \<and> length h + 3 \<le> b \<and> b < length h4"
      by blast
    have g4: "grows h h4"
      using len same by (simp add: grows_nth_iff)
    have ds: "dict_set (RObj ?pd) ''values'' (RObj ?pv) h4
        = (([], Inr ()), h4[?pd := ODict [(''key'', k), (''values'', RObj ?pv)]])"
      using len pd by (simp add: dict_set_def obj_at_def)
    have h': "h' = h4[?pd := ODict [(''key'', k), (''values'', RObj ?pv)]]"
      and res: "res = Inr (RObj ?pd)"
      using ds finished(2,3) by auto
    have "grows h h'"
      unfolding h' using g4 by (rule grows_update) simp
    moreover have "h' ! ?pd = ODict [(''key'', k), (''values'', RObj ?pv)]"
      unfolding h' using len by simp
    moreover have "h' ! ?pv = OList new"
      unfolding h' using new(1) by simp
    moreover have "\<forall>x \<in> set new. \<exists>b. x = RObj b \<and> length h + 3 \<le> b \<and> b < length h'"
      unfolding h' using new(2) by simp
    moreover have "length h + 3 \<le> length h'"
      unfolding h' using len by simp
    ultimately show ?thesis using res by auto
  qed
qed

text \<open>A value read at addresses of \<open>A\<close> stays the same while the objects there do.\<close>

lemma denotes_frame:
  assumes "denotes A h r v"
      and "\<forall>a \<in> A. a < length h \<longrightarrow> a < length h' \<and> h' ! a = h ! a"
  shows "denotes A h' r v"
  using assms
proof (induction rule: denotes.induct)
  case (d_list a rs vs)
  then have "list_all2 (denotes A h') rs vs"
    by (auto elim: list_all2_mono)
  then show ?case
    using d_list.hyps d_list.prems by (auto intro: denotes.d_list)
next
  case (d_dict a kvs kvs')
  then have "list_all2 (denotes A h') (map snd kvs) (map snd kvs')"
    by (auto elim: list_all2_mono)
  then show ?case
    using d_dict.hyps d_dict.prems by (auto intro: denotes.d_dict)
qed (auto intro: denotes.intros)

lemma denotes_weaken:
  assumes "denotes A h r v" and "A \<subseteq> B"
  shows "denotes B h r v"
  using assms
proof (induction rule: denotes.induct)
  case (d_list a rs vs)
  then have "list_all2 (denotes B h) rs vs"
    by (auto elim: list_all2_mono)
  then show ?case
    using d_list.hyps d_list.prems by (auto intro: denotes.d_list)
next
  case (d_dict a kvs kvs')
  then have "list_all2 (denotes B h) (map snd kvs) (map snd kvs')"
    by (auto elim: list_all2_mono)
  then show ?case
    using d_dict.hyps d_dict.prems by (auto intro: denotes.d_dict)
qed (auto intro: denotes.intros)

lemma denotes_bound:
  assumes "denotes A h r v"
  shows "denotes (A \<inter> {..<length h}) h r v"
  using assms
proof (induction rule: denotes.induct)
  case (d_list a rs vs)
  then have "list_all2 (denotes (A \<inter> {..<length h}) h) rs vs"
    by (auto elim: list_all2_mono)
  then show ?case
    using d_list.hyps by (auto intro: denotes.d_list)
next
  case (d_dict a kvs kvs')
  then have "list_all2 (denotes (A \<inter> {..<length h}) h) (map snd kvs) (map snd kvs')"
    by (auto elim: list_all2_mono)
  then show ?case
    using d_dict.hyps by (auto intro: denotes.d_dict)
qed (auto intro: denotes.intros)

lemma denotes_grows: "denotes A h r v \<Longrightarrow> grows h h' \<Longrightarrow> denotes A h' r v"
  by (erule denotes_frame) (auto simp: grows_nth_iff)

lemma denotes_str: "denotes A h r (PStr s) \<longleftrightarrow> r = RStr s"
  by (auto elim: denotes.cases intro: denotes.intros)

lemma denotes_rstr: "denotes A h (RStr s) v \<longleftrightarrow> v = PStr s"
  by (auto elim: denotes.cases intro: denotes.intros)

lemma denotes_none: "denotes A h r v \<Longrightarrow> (r = RNone) = (v = PNone)"
  by (auto elim: denotes.cases)

lemma denotes_truthy: "denotes A h r v \<Longrightarrow> truthy_h h r = Inr (truthy v)"
proof (induction rule: denotes.cases)
  case (d_dict a kvs kvs')
  then have "(kvs = []) = (kvs' = [])"
    by (metis map_is_Nil_conv)
  with d_dict show ?case by (simp add: truthy_h_def obj_at_def)
qed (auto simp: truthy_h_def obj_at_def dest: list_all2_lengthD)

lemma str_mem_rel:
  assumes "list_all2 (denotes A h) rs vs"
  shows "RStr k \<in> set rs \<longleftrightarrow> PStr k \<in> set vs"
  using assms by (induction rule: list_all2_induct) (auto simp: denotes_str denotes_rstr)

lemma denotes_contains: "denotes A h r v \<Longrightarrow> contains_h h r k = py_contains v k"
proof (induction rule: denotes.cases)
  case (d_list a rs vs)
  then show ?case by (simp add: contains_h_def obj_at_def str_mem_rel)
next
  case (d_dict a kvs kvs')
  then show ?case by (simp add: contains_h_def obj_at_def del: set_map)
qed (auto simp: contains_h_def)

lemma map_of_rel:
  assumes "map fst kvs = map fst kvs'" and "list_all2 R (map snd kvs) (map snd kvs')"
  shows "rel_option R (map_of kvs k) (map_of kvs' k)"
  using assms
proof (induction kvs arbitrary: kvs')
  case Nil
  then show ?case by simp
next
  case (Cons kv kvs)
  then obtain kv' rest where "kvs' = kv' # rest" by (cases kvs') auto
  with Cons show ?case by (cases kv; cases kv') auto
qed

lemma denotes_get:
  assumes "denotes A h r v" and "denotes A h d dv"
  shows "rel_sum (=) (denotes A h) (get_h h r k d) (py_get v k dv)"
  using assms(1)
proof (induction rule: denotes.cases)
  case (d_dict a kvs kvs')
  from map_of_rel[OF d_dict(6,7), of k] assms(2) d_dict(1-5) show ?case
    by (auto simp: get_h_def obj_at_def split: option.splits)
qed (auto simp: get_h_def obj_at_def)

lemma denotes_iter:
  assumes "denotes A h r v"
  shows "rel_sum (=) (list_all2 (denotes A h)) (iter_h h r) (py_iter v)"
  using assms
proof (induction rule: denotes.cases)
  case (d_str s)
  then show ?case
    by (simp add: iter_h_def list_all2_map1 list_all2_map2 list_all2_same denotes_rstr)
next
  case (d_dict a kvs kvs')
  have "map (\<lambda>kv. RStr (fst kv)) kvs = map RStr (map fst kvs)" by simp
  also have "\<dots> = map RStr (map fst kvs')" by (simp only: d_dict(6))
  finally have e: "map (\<lambda>kv. RStr (fst kv)) kvs = map RStr (map fst kvs')" .
  have "list_all2 (denotes A h) (map RStr (map fst kvs')) (map (\<lambda>kv. PStr (fst kv)) kvs')"
    by (simp add: list_all2_map1 list_all2_map2 list_all2_same denotes_rstr)
  then have "list_all2 (denotes A h) (map (\<lambda>kv. RStr (fst kv)) kvs)
               (map (\<lambda>kv. PStr (fst kv)) kvs')"
    unfolding e .
  with d_dict(1-5) show ?case
    by (simp add: iter_h_def obj_at_def)
qed (auto simp: iter_h_def obj_at_def)

lemma denotes_strptime: "denotes A h r v \<Longrightarrow> strptime_h r = strptime v"
  by (auto elim: denotes.cases)

lemma denotes_float: "denotes A h r v \<Longrightarrow> float_h r = py_float v"
  by (auto elim: denotes.cases)

lemma list_all2_unique:
  assumes "list_all2 (\<lambda>x y. P x y \<and> (\<forall>z. P x z \<longrightarrow> y = z)) xs ys"
      and "list_all2 P xs zs"
  shows "ys = zs"
  using assms
proof (induction arbitrary: zs rule: list_all2_induct)
  case Nil
  then show ?case by simp
next
  case (Cons x xs y ys)
  from Cons.prems obtain z zs' where zs: "zs = z # zs'" "P x z" "list_all2 P xs zs'"
    by (auto simp: list_all2_Cons1)
  then show ?case using Cons.hyps(1) Cons.IH[of zs'] by simp
qed

text \<open>A reference stands for at most one value.\<close>

lemma denotes_functional:
  assumes "denotes A h r v" and "denotes A h r v'"
  shows "v = v'"
  using assms
proof (induction arbitrary: v' rule: denotes.induct)
  case (d_list a rs vs)
  from d_list.prems d_list.hyps obtain vs' where v': "v' = PList vs'"
    and vs': "list_all2 (denotes A h) rs vs'"
    by (cases rule: denotes.cases) auto
  have "vs = vs'"
    using d_list.IH vs' by (rule list_all2_unique)
  then show ?case by (simp add: v')
next
  case (d_dict a kvs kvs')
  from d_dict.prems d_dict.hyps obtain kvs'' where v': "v' = PDict kvs''"
    and k: "map fst kvs = map fst kvs''"
    and vs': "list_all2 (denotes A h) (map snd kvs) (map snd kvs'')"
    by (cases rule: denotes.cases) auto
  have s: "map snd kvs' = map snd kvs''"
    using d_dict.IH vs' by (rule list_all2_unique)
  have f: "map fst kvs' = map fst kvs''"
    using d_dict.hyps k by simp
  have "kvs' = kvs''"
    using f s by (rule pair_list_eqI)
  then show ?case by (simp add: v')
qed (auto elim: denotes.cases)

lemmas run_defs = bind_def ret_def lift_def print_def try_except_def

text \<open>The loop body on the store does what the loop body on values does.\<close>

lemma process_item_refines:
  assumes d: "denotes A h item v"
  shows "\<exists>lines res h'. process_item_h item h = ((lines, res), h')
      \<and> list_all2 (rel_log (denotes A h)) lines (fst (process_item v))
      \<and> (case snd (process_item v) of
           Inl e \<Rightarrow> res = Inl e
         | Inr out \<Rightarrow>
             res = Inr (RObj (length h))
             \<and> (\<exists>pd pv dv xv. h' = h @ [ODict [(''date'', pd), (''value'', pv)]]
                   \<and> out = PDict [(''date'', dv), (''value'', xv)]
                   \<and> denotes {} h pd dv \<and> denotes {} h pv xv))"
proof -
  have gd: "rel_sum (=) (denotes A h) (get_h h item ''date'' RNone) (py_get v ''date'' PNone)"
    and gv: "rel_sum (=) (denotes A h) (get_h h item ''value'' RNone) (py_get v ''value'' PNone)"
    using denotes_get[OF d denotes.d_none] by auto
  show ?thesis
  proof (cases "py_get v ''date'' PNone")
    case (Inl e)
    then have "get_h h item ''date'' RNone = Inl e"
      using gd by (auto elim: rel_sum.cases)
    with Inl show ?thesis
      by (simp add: process_item_h_def process_item_def prog_defs run_defs)
  next
    case date: (Inr dv)
    then obtain ds where ds: "get_h h item ''date'' RNone = Inr ds" "denotes A h ds dv"
      using gd by (auto elim: rel_sum.cases)
    from gv obtain vs vv where
      vs: "get_h h item ''value'' RNone = Inr vs" "py_get v ''value'' PNone = Inr vv"
          "denotes A h vs vv"
      using d date by (cases v) (auto elim!: rel_sum.cases)
    note facts = denotes_truthy[OF ds(2)] denotes_strptime[OF ds(2)]
      denotes_float[OF vs(3)] denotes_none[OF vs(3)]
    show ?thesis
      unfolding process_item_h_def process_item_def
      by (auto simp: prog_defs run_defs date ds(1) vs(1,2) facts ds(2) vs(3)
               intro: denotes.intros split: sum.splits)
  qed
qed

lemma denotes_agree:
  assumes "\<forall>a \<in> A. a < length h \<and> a < length h' \<and> h' ! a = h ! a"
  shows "denotes A h = denotes A h'"
proof (intro ext iffI)
  fix r v
  assume "denotes A h r v"
  then show "denotes A h' r v"
    by (rule denotes_frame) (use assms in auto)
next
  fix r v
  assume "denotes A h' r v"
  then show "denotes A h r v"
    by (rule denotes_frame) (use assms in auto)
qed

text \<open>
  The loop on the store does what the loop on values does.  The items are read in the
  store \<open>h0\<close> the function started from, at addresses of \<open>A\<close>; the entries built so far sit
  above the list \<open>processed_values\<close>.
\<close>

lemma for_items_refines:
  assumes "list_all2 (denotes A h0) rs vs"
      and A: "\<forall>a \<in> A. a < length h0"
      and "length h0 \<le> length h" "\<forall>a < length h0. h ! a = h0 ! a"
      and "length h0 \<le> pv" "pv < length h" "h ! pv = OList acc"
      and "list_all2 (denotes {a. pv < a} h) acc acc_v"
  shows "\<exists>lines res h'. for_items_h rs (RObj pv) h = ((lines, res), h')
      \<and> list_all2 (rel_log (denotes A h0)) lines (fst (for_items vs acc_v))
      \<and> (case snd (for_items vs acc_v) of
           Inl e \<Rightarrow> res = Inl e
         | Inr outs \<Rightarrow>
             res = Inr ()
             \<and> (\<exists>rs'. h' ! pv = OList rs' \<and> list_all2 (denotes {a. pv < a} h') rs' outs))"
  using assms(1,3-)
proof (induction arbitrary: h acc acc_v rule: list_all2_induct)
  case Nil
  then show ?case by (simp add: hret_def ret_def)
next
  case (Cons r rs v vs)
  have eq: "denotes A h = denotes A h0"
    by (rule denotes_agree) (use A Cons.prems(1,2) in auto)
  have dA: "denotes A h r v"
    using Cons.hyps(1) by (simp add: eq)
  from process_item_refines[OF dA] obtain l1 res1 h1 where
    s1: "process_item_h r h = ((l1, res1), h1)"
    and l1: "list_all2 (rel_log (denotes A h0)) l1 (fst (process_item v))"
    and r1: "case snd (process_item v) of
           Inl e \<Rightarrow> res1 = Inl e
         | Inr out \<Rightarrow>
             res1 = Inr (RObj (length h))
             \<and> (\<exists>pd pv dv xv. h1 = h @ [ODict [(''date'', pd), (''value'', pv)]]
                   \<and> out = PDict [(''date'', dv), (''value'', xv)]
                   \<and> denotes {} h pd dv \<and> denotes {} h pv xv)"
    unfolding eq by blast
  obtain lp resp where p: "process_item v = (lp, resp)" by (cases "process_item v")
  show ?case
  proof (cases resp)
    case (Inl e)
    then show ?thesis
      using s1 l1 r1 p by (simp add: hbind_def bind_def)
  next
    case (Inr out)
    then obtain pd px dv xv where
      res1: "res1 = Inr (RObj (length h))"
      and h1: "h1 = h @ [ODict [(''date'', pd), (''value'', px)]]"
      and out: "out = PDict [(''date'', dv), (''value'', xv)]"
      and imm: "denotes {} h pd dv" "denotes {} h px xv"
      using r1 p by auto
    let ?e = "RObj (length h)"
    let ?h2 = "h1[pv := OList (acc @ [?e])]"
    let ?B = "{a. pv < a}"
    have ap: "list_append (RObj pv) ?e h1 = (([], Inr ()), ?h2)"
      using Cons.prems(4,5) by (simp add: list_append_def obj_at_def h1 nth_append)
    have c1: "length h0 \<le> length ?h2" using Cons.prems(1) by (simp add: h1)
    have c2: "\<forall>a < length h0. ?h2 ! a = h0 ! a"
      using Cons.prems(1,2,3) by (auto simp: h1 nth_append)
    have c3: "pv < length ?h2" using Cons.prems(4) by (simp add: h1)
    have c4: "?h2 ! pv = OList (acc @ [?e])" using Cons.prems(4) by (simp add: h1)
    have old: "list_all2 (denotes ?B ?h2) acc acc_v"
      using Cons.prems(6)
      by (rule list_all2_mono) (erule denotes_frame, auto simp: h1 nth_append)
    have immB: "denotes ?B ?h2 pd dv" "denotes ?B ?h2 px xv"
      using imm by (auto intro: denotes_weaken[where A="{}"] denotes_frame[where A="{}"])
    have "denotes ?B ?h2 ?e out"
      unfolding out
      by (rule denotes.d_dict[where kvs="[(''date'', pd), (''value'', px)]"])
         (use Cons.prems(4) immB in \<open>auto simp: h1 nth_append\<close>)
    then have c5: "list_all2 (denotes ?B ?h2) (acc @ [?e]) (acc_v @ [out])"
      using old by (simp add: list_all2_appendI)
    from Cons.IH[OF c1 c2 Cons.prems(3) c3 c4 c5] obtain l3 res3 h3 where
      s3: "for_items_h rs (RObj pv) ?h2 = ((l3, res3), h3)"
      and l3: "list_all2 (rel_log (denotes A h0)) l3 (fst (for_items vs (acc_v @ [out])))"
      and r3: "case snd (for_items vs (acc_v @ [out])) of
           Inl e \<Rightarrow> res3 = Inl e
         | Inr outs \<Rightarrow>
             res3 = Inr ()
             \<and> (\<exists>rs'. h3 ! pv = OList rs' \<and> list_all2 (denotes ?B h3) rs' outs)"
      by blast
    have run: "for_items_h (r # rs) (RObj pv) h = ((l1 @ l3, res3), h3)"
      by (simp add: hbind_def s1 res1 ap s3)
    have pure: "for_items (v # vs) acc_v
        = (lp @ fst (for_items vs (acc_v @ [out])), snd (for_items vs (acc_v @ [out])))"
      by (simp add: bind_def p Inr split: prod.splits)
    show ?thesis
      unfolding run pure using l1 l3 r3 p
      by (auto simp: list_all2_appendI)
  qed
qed

text \<open>
  The function on the store does what the function on values does: the lines printed carry
  references that stand for the values printed, an exception is the same exception, and a
  result stands, in the store left, for the result on values.
\<close>

lemma process_measurement_data_refines:
  assumes d: "denotes UNIV h raw v"
  shows "\<exists>lines res h'. process_measurement_data_h raw h = ((lines, res), h')
     \<and> list_all2 (rel_log (denotes UNIV h)) lines (fst (process_measurement_data v))
     \<and> rel_sum (=) (denotes UNIV h') res (snd (process_measurement_data v))"
proof -
  let ?A = "{..<length h}"
  have dA: "denotes ?A h raw v"
    using denotes_bound[OF d] by simp
  note t = denotes_truthy[OF dA]
  note c = denotes_contains[OF dA, of "''values''"]
  have gk: "rel_sum (=) (denotes ?A h) (get_h h raw ''key'' RNone) (py_get v ''key'' PNone)"
    using denotes_get[OF dA denotes.d_none] by auto
  show ?thesis
  proof (cases "truthy v \<and> py_contains v ''values'' = Inr True \<and> (\<exists>kv. py_get v ''key'' PNone = Inr kv)")
    case False
    then consider "\<not> truthy v" | e where "truthy v" "py_contains v ''values'' = Inl e"
      | "truthy v" "py_contains v ''values'' = Inr False"
      | e where "truthy v" "py_contains v ''values'' = Inr True" "py_get v ''key'' PNone = Inl e"
      by (cases "py_contains v ''values''"; cases "py_get v ''key'' PNone") auto
    then show ?thesis
    proof cases
      case 4
      then have "get_h h raw ''key'' RNone = Inl e"
        using gk by (auto elim: rel_sum.cases)
      with 4 show ?thesis
        by (simp add: process_measurement_data_h_def process_measurement_data_def
              prog_defs run_defs t c)
    qed (simp_all add: process_measurement_data_h_def process_measurement_data_def
              prog_defs run_defs t c denotes.intros)
  next
    case True
    then obtain kv where tv: "truthy v" and cv: "py_contains v ''values'' = Inr True"
      and kv: "py_get v ''key'' PNone = Inr kv"
      by blast
    from dA kv obtain a kvs kvs' where raw: "raw = RObj a" and v: "v = PDict kvs'"
      and a: "a < length h" "h ! a = ODict kvs"
      and keys: "map fst kvs = map fst kvs'"
      and vals: "list_all2 (denotes ?A h) (map snd kvs) (map snd kvs')"
      by (cases rule: denotes.cases) auto
    from kv gk obtain k where k: "get_h h raw ''key'' RNone = Inr k" "denotes ?A h k kv"
      by (auto elim: rel_sum.cases)
    from cv obtain vv where vv: "map_of kvs' ''values'' = Some vv"
      unfolding v by (cases "map_of kvs' ''values''") (auto simp: map_of_eq_None_iff)
    with map_of_rel[OF keys vals, of "''values''"] obtain vr where
      vr: "map_of kvs ''values'' = Some vr" "denotes ?A h vr vv"
      by (cases "map_of kvs ''values''") auto
    let ?pd = "length h" and ?pv = "Suc (length h)"
    let ?h3 = "h @ [ODict [(''key'', k)], OList [], OList []]"
    have eq3: "denotes ?A ?h3 = denotes ?A h"
      by (rule denotes_agree) (auto simp: nth_append)
    have g3: "get_h ?h3 raw ''values'' (RObj (Suc (Suc (length h)))) = Inr vr"
      using a vr(1) by (simp add: get_h_def obj_at_def raw nth_append)
    have p3: "py_get v ''values'' (PList []) = Inr vv"
      by (simp add: v vv)
    have it: "rel_sum (=) (list_all2 (denotes ?A h)) (iter_h ?h3 vr) (py_iter vv)"
      using denotes_iter[of ?A ?h3 vr vv] vr(2) by (simp add: eq3)
    show ?thesis
    proof (cases "py_iter vv")
      case (Inl e)
      then have "iter_h ?h3 vr = Inl e"
        using it by (auto elim: rel_sum.cases)
      with Inl show ?thesis
        by (simp add: process_measurement_data_h_def process_measurement_data_def
              prog_defs run_defs t c tv cv kv k(1) g3 p3)
    next
      case (Inr vitems)
      then obtain items where items: "iter_h ?h3 vr = Inr items"
        "list_all2 (denotes ?A h) items vitems"
        using it by (auto elim: rel_sum.cases)
      have "\<exists>lines res h'. for_items_h items (RObj ?pv) ?h3 = ((lines, res), h')
        \<and> list_all2 (rel_log (denotes ?A h)) lines (fst (for_items vitems []))
        \<and> (case snd (for_items vitems []) of
             Inl e \<Rightarrow> res = Inl e
           | Inr outs \<Rightarrow>
               res = Inr ()
               \<and> (\<exists>rs'. h' ! ?pv = OList rs' \<and> list_all2 (denotes {a. ?pv < a} h') rs' outs))"
        by (rule for_items_refines[OF items(2), where acc="[]"]) (auto simp: nth_append)
      then obtain l res4 h4 where
        s4: "for_items_h items (RObj ?pv) ?h3 = ((l, res4), h4)"
        and l4: "list_all2 (rel_log (denotes ?A h)) l (fst (for_items vitems []))"
        and r4: "case snd (for_items vitems []) of
             Inl e \<Rightarrow> res4 = Inl e
           | Inr outs \<Rightarrow>
               res4 = Inr ()
               \<and> (\<exists>rs'. h4 ! ?pv = OList rs' \<and> list_all2 (denotes {a. ?pv < a} h4) rs' outs)"
        by blast
      have lU: "list_all2 (rel_log (denotes UNIV h)) l (fst (for_items vitems []))"
        using l4 by (rule list_all2_mono) (auto elim!: log.rel_mono_strong intro: denotes_weaken)
      obtain lp resp where p: "for_items vitems [] = (lp, resp)" by (cases "for_items vitems []")
      show ?thesis
      proof (cases resp)
        case (Inl e)
        then show ?thesis
          using r4 lU p
          by (simp add: process_measurement_data_h_def process_measurement_data_def
              prog_defs run_defs t c tv cv kv k(1) g3 p3 items(1) Inr s4)
      next
        case outs: (Inr outs)
        then obtain rs' where res4: "res4 = Inr ()" and rs': "h4 ! ?pv = OList rs'"
          "list_all2 (denotes {a. ?pv < a} h4) rs' outs"
          using r4 p by auto
        from for_items_h_fresh[OF s4] have
          len: "length h + 3 \<le> length h4"
          and same: "\<forall>a < length h. h4 ! a = h ! a"
          and pd: "h4 ! length h = ODict [(''key'', k)]"
          by auto
        let ?h5 = "h4[?pd := ODict [(''key'', k), (''values'', RObj ?pv)]]"
        have ds: "dict_set (RObj ?pd) ''values'' (RObj ?pv) h4 = (([], Inr ()), ?h5)"
          using len pd by (simp add: dict_set_def obj_at_def)
        have run: "process_measurement_data_h raw h = ((l, Inr (RObj ?pd)), ?h5)"
          by (simp add: process_measurement_data_h_def prog_defs t c tv cv k(1) g3 items(1)
                s4 res4 ds)
        have pure: "process_measurement_data v
            = (lp, Inr (PDict [(''key'', kv), (''values'', PList outs)]))"
          by (simp add: process_measurement_data_def run_defs tv cv kv p3 Inr p outs)
        have dk: "denotes UNIV ?h5 k kv"
          using k(2) by (rule denotes_weaken[OF denotes_frame]) (use same len in auto)
        have "list_all2 (denotes UNIV ?h5) rs' outs"
          using rs'(2)
          by (rule list_all2_mono) (erule denotes_weaken[OF denotes_frame], auto)
        then have dl: "denotes UNIV ?h5 (RObj ?pv) (PList outs)"
          by (intro denotes.d_list[where rs=rs']) (use len rs'(1) in auto)
        have "denotes UNIV ?h5 (RObj ?pd) (PDict [(''key'', kv), (''values'', PList outs)])"
          by (rule denotes.d_dict[where kvs="[(''key'', k), (''values'', RObj ?pv)]"])
             (use len dk dl in auto)
        then show ?thesis
          unfolding run pure using lU p by simp
      qed
    qed
  qed
qed

text \<open>Lines and results read in a store are read the same in a store grown from it.\<close>

lemma log_lines_grow:
  assumes "list_all2 (rel_log (denotes A h)) lines L" and "grows h h'"
  shows "list_all2 (rel_log (denotes A h')) lines L"
  using assms(1)
  by (rule list_all2_mono) (auto elim!: log.rel_mono_strong intro: denotes_grows[OF _ assms(2)])

lemma result_grows:
  assumes "rel_sum (=) (denotes A h) res R" and "grows h h'"
  shows "rel_sum (=) (denotes A h') res R"
  using assms(1)
  by (rule sum.rel_mono_strong) (auto intro: denotes_grows[OF _ assms(2)])

section \<open>The claims\<close>



text \<open>
  C2.  The normaliser on the record \<^verbatim>\<open>{"key": "PM10", "values": null}\<close>: it passes
  the gate, the loop iterates over \<^verbatim>\<open>None\<close>, and the \<^verbatim>\<open>TypeError\<close> leaves the
  function with nothing printed.
\<close>

theorem process_measurement_data_null_values_raises:
  "process_measurement_data (PDict [(''key'', PStr ''PM10''), (''values'', PNone)])
   = ([], Inl TypeError)"
  by code_simp

text \<open>
  C6.  The example series with key PM10 and two entries gives two entries and prints
  nothing: 2024-01-01 10:00:00 with 12.5, then 2024-01-01 11:00:00 with no value.
\<close>

theorem process_measurement_data_example:
  "process_measurement_data
     (PDict [(''key'', PStr ''PM10''),
             (''values'', PList
                [PDict [(''date'', PStr ''2024-01-01 10:00:00''), (''value'', PStr ''12.5'')],
                 PDict [(''date'', PStr ''2024-01-01 11:00:00''), (''value'', PNone)]])])
   = ([], Inr (PDict [(''key'', PStr ''PM10''),
                      (''values'', PList
                         [PDict [(''date'', PDatetime \<lparr>year = 2024, month = 1, day = 1,
                                                        hour = 10, minute = 0, second = 0\<rparr>),
                                 (''value'', PFloat (Finite False (25 / 2)))],
                          PDict [(''date'', PDatetime \<lparr>year = 2024, month = 1, day = 1,
                                                        hour = 11, minute = 0, second = 0\<rparr>),
                                 (''value'', PNone)]])]))"
  by code_simp






text \<open>
  C5.  The validation gate: \<^verbatim>\<open>None\<close> is rejected; a record is rejected, with the
  error line printed and \<^verbatim>\<open>None\<close> returned, exactly when it has no key
  \<^verbatim>\<open>values\<close>; and whatever the input, \<^verbatim>\<open>None\<close> is returned only by the gate, on an
  input that tests false or does not contain \<^verbatim>\<open>values\<close>.
\<close>

theorem validation_gate_exact:
  "process_measurement_data PNone = ([InvalidMeasurementData], Inr PNone)
   \<and> (process_measurement_data (PDict kvs) = ([InvalidMeasurementData], Inr PNone))
       = (''values'' \<notin> fst ` set kvs)
   \<and> (snd (process_measurement_data raw) = Inr PNone \<longrightarrow>
        process_measurement_data raw = ([InvalidMeasurementData], Inr PNone)
        \<and> (\<not> truthy raw \<or> py_contains raw ''values'' = Inr False))"
proof (intro conjI impI)
  show "process_measurement_data PNone = ([InvalidMeasurementData], Inr PNone)"
    by (simp add: process_measurement_data_def bind_def ret_def print_def)
  show "(process_measurement_data (PDict kvs) = ([InvalidMeasurementData], Inr PNone))
       = (''values'' \<notin> fst ` set kvs)"
    by (auto simp: process_measurement_data_def bind_def ret_def print_def lift_def
             split: sum.splits prod.splits)
  assume "snd (process_measurement_data raw) = Inr PNone"
  then show "process_measurement_data raw = ([InvalidMeasurementData], Inr PNone)"
    by (auto simp: process_measurement_data_def bind_def ret_def print_def lift_def
             split: sum.splits prod.splits if_splits)
  then show "\<not> truthy raw \<or> py_contains raw ''values'' = Inr False"
    by (auto simp: process_measurement_data_def bind_def ret_def print_def lift_def
             split: sum.splits prod.splits if_splits)
qed

theorem validation_gate_exact_witness:
  "process_measurement_data (PDict [(''key'', PStr ''PM10'')])
     = ([InvalidMeasurementData], Inr PNone)
   \<and> process_measurement_data (PDict [(''key'', PStr ''PM10''), (''values'', PList [])])
     \<noteq> ([InvalidMeasurementData], Inr PNone)
   \<and> snd (process_measurement_data (PDict [(''key'', PStr ''PM10''), (''values'', PList [])]))
     \<noteq> Inr PNone"
proof -
  have a: "''values'' \<notin> fst ` set [(''key'', PStr ''PM10'')]" by simp
  have b: "\<not> (''values'' \<notin> fst ` set [(''key'', PStr ''PM10''), (''values'', PList [])])"
    by simp
  have "process_measurement_data (PDict [(''key'', PStr ''PM10'')])
     = ([InvalidMeasurementData], Inr PNone)"
    using validation_gate_exact[of "[(''key'', PStr ''PM10'')]" PNone] a by blast
  moreover have c: "process_measurement_data (PDict [(''key'', PStr ''PM10''), (''values'', PList [])])
     \<noteq> ([InvalidMeasurementData], Inr PNone)"
    using validation_gate_exact[of "[(''key'', PStr ''PM10''), (''values'', PList [])]" PNone] b
    by blast
  moreover have "snd (process_measurement_data (PDict [(''key'', PStr ''PM10''), (''values'', PList [])]))
     \<noteq> Inr PNone"
    using validation_gate_exact[of "[]"
            "PDict [(''key'', PStr ''PM10''), (''values'', PList [])]"] c
    by blast
  ultimately show ?thesis by blast
qed

text \<open>
  C8.  When the request of a fetch operation fails, by an exception of the transport (a
  refused connection, a timeout) or by a 4xx or 5xx status, the operation returns
  \<^verbatim>\<open>None\<close> and prints one line, which carries the exception and, for the sensors and
  the measurements, the station or sensor id.
\<close>

theorem fetch_failure_absent_and_logged:
  "(request_fails net (GIOS_API_BASE_URL @ ''/station/findAll'') r \<longrightarrow>
      fetch_stations net = ([StationsFetchFailed (RequestException r)], Inr PNone))
   \<and> (request_fails net (GIOS_API_BASE_URL @ ''/station/sensors/'' @ str_int station_id) r \<longrightarrow>
      fetch_sensors_for_station net station_id
        = ([SensorsFetchFailed station_id (RequestException r)], Inr PNone))
   \<and> (request_fails net (GIOS_API_BASE_URL @ ''/data/getData/'' @ str_int sensor_id) r \<longrightarrow>
      fetch_measurements_for_sensor net sensor_id
        = ([MeasurementsFetchFailed sensor_id (RequestException r)], Inr PNone))"
  by (auto simp: request_fails_def fetch_stations_def fetch_sensors_for_station_def
        fetch_measurements_for_sensor_def get_json_def raise_for_status_def
        try_except_def bind_def lift_def ret_def print_def
      split: sum.splits)

theorem fetch_failure_absent_and_logged_witness:
  "request_fails (\<lambda>url. Inl (RequestException Timeout))
     (GIOS_API_BASE_URL @ ''/station/sensors/'' @ str_int 14) Timeout
   \<and> fetch_sensors_for_station (\<lambda>url. Inl (RequestException Timeout)) 14
       = ([SensorsFetchFailed 14 (RequestException Timeout)], Inr PNone)
   \<and> request_fails (\<lambda>url. Inr \<lparr>status_code = 503, json = Inr (PList [])\<rparr>)
       (GIOS_API_BASE_URL @ ''/data/getData/'' @ str_int 92) (HTTPError 503)
   \<and> fetch_measurements_for_sensor (\<lambda>url. Inr \<lparr>status_code = 503, json = Inr (PList [])\<rparr>) 92
       = ([MeasurementsFetchFailed 92 (RequestException (HTTPError 503))], Inr PNone)
   \<and> request_fails (\<lambda>url. Inl (RequestException ConnectionError))
       (GIOS_API_BASE_URL @ ''/station/findAll'') ConnectionError
   \<and> fetch_stations (\<lambda>url. Inl (RequestException ConnectionError))
       = ([StationsFetchFailed (RequestException ConnectionError)], Inr PNone)"
proof -
  let ?t = "\<lambda>url :: string. (Inl (RequestException Timeout) :: exn + response)"
  let ?h = "\<lambda>url :: string. (Inr \<lparr>status_code = 503, json = Inr (PList [])\<rparr> :: exn + response)"
  let ?c = "\<lambda>url :: string. (Inl (RequestException ConnectionError) :: exn + response)"
  have a: "request_fails ?t (GIOS_API_BASE_URL @ ''/station/sensors/'' @ str_int 14) Timeout"
    by (simp add: request_fails_def)
  have b: "request_fails ?h (GIOS_API_BASE_URL @ ''/data/getData/'' @ str_int 92) (HTTPError 503)"
    by (simp add: request_fails_def)
  have c: "request_fails ?c (GIOS_API_BASE_URL @ ''/station/findAll'') ConnectionError"
    by (simp add: request_fails_def)
  show ?thesis
    using a b c
      fetch_failure_absent_and_logged[of ?t Timeout 14 92]
      fetch_failure_absent_and_logged[of ?h "HTTPError 503" 14 92]
      fetch_failure_absent_and_logged[of ?c ConnectionError 14 92]
    by blast
qed



text \<open>
  C7.  The function run twice, one run after the other, on the same reference to a series
  that stands for the value \<open>v\<close>: read in the store the second run leaves, the lines of
  both runs are the lines the function prints on \<open>v\<close>, and the results of both runs are
  its result on \<open>v\<close> (the same exception, or references that stand for the same
  normalised series).  A reference stands for one value only, so the two outputs read the
  same.
\<close>

theorem two_runs_same_output:
  assumes d: "denotes UNIV h raw v"
      and run1: "process_measurement_data_h raw h = ((lines1, res1), h1)"
      and run2: "process_measurement_data_h raw h1 = ((lines2, res2), h2)"
  shows "list_all2 (rel_log (denotes UNIV h2)) lines1 (fst (process_measurement_data v))
       \<and> list_all2 (rel_log (denotes UNIV h2)) lines2 (fst (process_measurement_data v))
       \<and> rel_sum (=) (denotes UNIV h2) res1 (snd (process_measurement_data v))
       \<and> rel_sum (=) (denotes UNIV h2) res2 (snd (process_measurement_data v))
       \<and> (\<forall>r1 r2 x y. res1 = Inr r1 \<and> res2 = Inr r2
             \<and> denotes UNIV h2 r1 x \<and> denotes UNIV h2 r2 y \<longrightarrow> x = y)"
proof -
  have g1: "grows h h1" and g2: "grows h1 h2"
    using process_measurement_data_h_store[OF run1] process_measurement_data_h_store[OF run2]
    by blast+
  have d1: "denotes UNIV h1 raw v"
    using d g1 by (rule denotes_grows)
  from process_measurement_data_refines[OF d] run1 have
    l1: "list_all2 (rel_log (denotes UNIV h)) lines1 (fst (process_measurement_data v))"
    and r1: "rel_sum (=) (denotes UNIV h1) res1 (snd (process_measurement_data v))"
    by auto
  from process_measurement_data_refines[OF d1] run2 have
    l2: "list_all2 (rel_log (denotes UNIV h1)) lines2 (fst (process_measurement_data v))"
    and r2: "rel_sum (=) (denotes UNIV h2) res2 (snd (process_measurement_data v))"
    by auto
  have L1: "list_all2 (rel_log (denotes UNIV h2)) lines1 (fst (process_measurement_data v))"
    using l1 grows_trans[OF g1 g2] by (rule log_lines_grow)
  have L2: "list_all2 (rel_log (denotes UNIV h2)) lines2 (fst (process_measurement_data v))"
    using l2 g2 by (rule log_lines_grow)
  have R1: "rel_sum (=) (denotes UNIV h2) res1 (snd (process_measurement_data v))"
    using r1 g2 by (rule result_grows)
  have "x = y"
    if a: "res1 = Inr a1" "res2 = Inr a2" and b: "denotes UNIV h2 a1 x" "denotes UNIV h2 a2 y"
    for a1 a2 x y
  proof -
    obtain out where out: "snd (process_measurement_data v) = Inr out"
      "denotes UNIV h2 a1 out" "denotes UNIV h2 a2 out"
      using R1 r2 a by (auto elim!: rel_sum.cases)
    then show ?thesis
      using b denotes_functional by blast
  qed
  with L1 L2 R1 r2 show ?thesis by blast
qed

theorem two_runs_same_output_witness:
  "denotes UNIV
     [ODict [(''value'', RNone)], OList [RObj 0],
      ODict [(''key'', RStr ''PM10''), (''values'', RObj 1)]]
     (RObj 2)
     (PDict [(''key'', PStr ''PM10''), (''values'', PList [PDict [(''value'', PNone)]])])
   \<and> process_measurement_data_h (RObj 2)
       [ODict [(''value'', RNone)], OList [RObj 0],
        ODict [(''key'', RStr ''PM10''), (''values'', RObj 1)]]
     = (([], Inr (RObj 3)),
        [ODict [(''value'', RNone)], OList [RObj 0],
         ODict [(''key'', RStr ''PM10''), (''values'', RObj 1)],
         ODict [(''key'', RStr ''PM10''), (''values'', RObj 4)], OList [RObj 6], OList [],
         ODict [(''date'', RNone), (''value'', RNone)]])
   \<and> process_measurement_data_h (RObj 2)
       [ODict [(''value'', RNone)], OList [RObj 0],
        ODict [(''key'', RStr ''PM10''), (''values'', RObj 1)],
        ODict [(''key'', RStr ''PM10''), (''values'', RObj 4)], OList [RObj 6], OList [],
        ODict [(''date'', RNone), (''value'', RNone)]]
     = (([], Inr (RObj 7)),
        [ODict [(''value'', RNone)], OList [RObj 0],
         ODict [(''key'', RStr ''PM10''), (''values'', RObj 1)],
         ODict [(''key'', RStr ''PM10''), (''values'', RObj 4)], OList [RObj 6], OList [],
         ODict [(''date'', RNone), (''value'', RNone)],
         ODict [(''key'', RStr ''PM10''), (''values'', RObj 8)], OList [RObj 10], OList [],
         ODict [(''date'', RNone), (''value'', RNone)]])
   \<and> (\<exists>out.
        denotes UNIV
          [ODict [(''value'', RNone)], OList [RObj 0],
           ODict [(''key'', RStr ''PM10''), (''values'', RObj 1)],
           ODict [(''key'', RStr ''PM10''), (''values'', RObj 4)], OList [RObj 6], OList [],
           ODict [(''date'', RNone), (''value'', RNone)],
           ODict [(''key'', RStr ''PM10''), (''values'', RObj 8)], OList [RObj 10], OList [],
           ODict [(''date'', RNone), (''value'', RNone)]]
          (RObj 3) out
      \<and> denotes UNIV
          [ODict [(''value'', RNone)], OList [RObj 0],
           ODict [(''key'', RStr ''PM10''), (''values'', RObj 1)],
           ODict [(''key'', RStr ''PM10''), (''values'', RObj 4)], OList [RObj 6], OList [],
           ODict [(''date'', RNone), (''value'', RNone)],
           ODict [(''key'', RStr ''PM10''), (''values'', RObj 8)], OList [RObj 10], OList [],
           ODict [(''date'', RNone), (''value'', RNone)]]
          (RObj 7) out)"
proof -
  let ?h = "[ODict [(''value'', RNone)], OList [RObj 0],
      ODict [(''key'', RStr ''PM10''), (''values'', RObj 1)]]"
  let ?h1 = "[ODict [(''value'', RNone)], OList [RObj 0],
         ODict [(''key'', RStr ''PM10''), (''values'', RObj 1)],
         ODict [(''key'', RStr ''PM10''), (''values'', RObj 4)], OList [RObj 6], OList [],
         ODict [(''date'', RNone), (''value'', RNone)]]"
  let ?h2 = "[ODict [(''value'', RNone)], OList [RObj 0],
         ODict [(''key'', RStr ''PM10''), (''values'', RObj 1)],
         ODict [(''key'', RStr ''PM10''), (''values'', RObj 4)], OList [RObj 6], OList [],
         ODict [(''date'', RNone), (''value'', RNone)],
         ODict [(''key'', RStr ''PM10''), (''values'', RObj 8)], OList [RObj 10], OList [],
         ODict [(''date'', RNone), (''value'', RNone)]]"
  let ?v = "PDict [(''key'', PStr ''PM10''), (''values'', PList [PDict [(''value'', PNone)]])]"
  have e: "denotes UNIV ?h (RObj 0) (PDict [(''value'', PNone)])"
    by (rule denotes.d_dict[where kvs="[(''value'', RNone)]"]) (simp_all add: denotes.intros)
  have l: "denotes UNIV ?h (RObj 1) (PList [PDict [(''value'', PNone)]])"
    by (rule denotes.d_list[where rs="[RObj 0]"]) (use e in simp_all)
  have d: "denotes UNIV ?h (RObj 2) ?v"
    by (rule denotes.d_dict[where kvs="[(''key'', RStr ''PM10''), (''values'', RObj 1)]"])
       (use l in \<open>simp_all add: denotes.intros\<close>)
  have run1: "process_measurement_data_h (RObj 2) ?h = (([], Inr (RObj 3)), ?h1)"
    by code_simp
  have run2: "process_measurement_data_h (RObj 2) ?h1 = (([], Inr (RObj 7)), ?h2)"
    by code_simp
  from two_runs_same_output[OF d run1 run2] have
    "rel_sum (=) (denotes UNIV ?h2) (Inr (RObj 3)) (snd (process_measurement_data ?v))"
    "rel_sum (=) (denotes UNIV ?h2) (Inr (RObj 7)) (snd (process_measurement_data ?v))"
    by blast+
  then have "\<exists>out. denotes UNIV ?h2 (RObj 3) out \<and> denotes UNIV ?h2 (RObj 7) out"
    by (auto elim!: rel_sum.cases)
  with d run1 run2 show ?thesis by blast
qed

text \<open>
  C10.  Whatever the input, a call leaves every object of the store it started from at its
  address and unchanged, so every reference reads after the call the value it read before:
  the raw series, its key, its entries and their fields.  A series returned is a new
  dictionary, whose list of values is new, and the entries in that list are new.
\<close>

theorem normaliser_leaves_input_unchanged:
  assumes run: "process_measurement_data_h raw h = ((lines, res), h')"
  shows "grows h h'
       \<and> (\<forall>A r v. denotes A h r v \<longrightarrow> denotes A h' r v)
       \<and> (\<forall>r. res = Inr r \<longrightarrow>
            (r = RNone \<and> h' = h)
          \<or> (r = RObj (length h) \<and> length h + 3 \<le> length h'
              \<and> (\<exists>k entries.
                    h' ! length h = ODict [(''key'', k), (''values'', RObj (Suc (length h)))]
                  \<and> h' ! Suc (length h) = OList entries
                  \<and> (\<forall>x \<in> set entries. \<exists>b. x = RObj b \<and> length h + 3 \<le> b \<and> b < length h'))))"
proof -
  note s = process_measurement_data_h_store[OF run]
  then have g: "grows h h'" by blast
  then have "\<forall>A r v. denotes A h r v \<longrightarrow> denotes A h' r v"
    by (blast intro: denotes_grows)
  with s show ?thesis by blast
qed

theorem normaliser_leaves_input_unchanged_witness:
  "process_measurement_data_h (RObj 2)
     [ODict [(''date'', RStr ''not-a-date''), (''value'', RStr ''12.5'')],
      OList [RObj 0],
      ODict [(''key'', RStr ''PM10''), (''values'', RObj 1)]]
   = (([InvalidDateFormat (RStr ''not-a-date'')], Inr (RObj 3)),
      [ODict [(''date'', RStr ''not-a-date''), (''value'', RStr ''12.5'')],
       OList [RObj 0],
       ODict [(''key'', RStr ''PM10''), (''values'', RObj 1)],
       ODict [(''key'', RStr ''PM10''), (''values'', RObj 4)],
       OList [RObj 6],
       OList [],
       ODict [(''date'', RNone), (''value'', RFloat (Finite False (25 / 2)))]])
   \<and> grows
       [ODict [(''date'', RStr ''not-a-date''), (''value'', RStr ''12.5'')],
        OList [RObj 0],
        ODict [(''key'', RStr ''PM10''), (''values'', RObj 1)]]
       [ODict [(''date'', RStr ''not-a-date''), (''value'', RStr ''12.5'')],
        OList [RObj 0],
        ODict [(''key'', RStr ''PM10''), (''values'', RObj 1)],
        ODict [(''key'', RStr ''PM10''), (''values'', RObj 4)],
        OList [RObj 6],
        OList [],
        ODict [(''date'', RNone), (''value'', RFloat (Finite False (25 / 2)))]]"
proof -
  let ?h = "[ODict [(''date'', RStr ''not-a-date''), (''value'', RStr ''12.5'')],
      OList [RObj 0],
      ODict [(''key'', RStr ''PM10''), (''values'', RObj 1)]]"
  let ?h' = "[ODict [(''date'', RStr ''not-a-date''), (''value'', RStr ''12.5'')],
       OList [RObj 0],
       ODict [(''key'', RStr ''PM10''), (''values'', RObj 1)],
       ODict [(''key'', RStr ''PM10''), (''values'', RObj 4)],
       OList [RObj 6],
       OList [],
       ODict [(''date'', RNone), (''value'', RFloat (Finite False (25 / 2)))]]"
  have run: "process_measurement_data_h (RObj 2) ?h
     = (([InvalidDateFormat (RStr ''not-a-date'')], Inr (RObj 3)), ?h')"
    by code_simp
  from normaliser_leaves_input_unchanged[OF run] have "grows ?h ?h'" by blast
  with run show ?thesis by blast
qed

end
